theory Spec2Isabelle
  imports Main "HOL-Library.Word"
begin

unbundle bit_operations_syntax

section \<open>Machine state\<close>

text \<open>
  The program of \<^verbatim>\<open>src/apps/TestC/src/main.c\<close> runs on a 32-bit RISC-V hart: the cause
  register is read into a \<^verbatim>\<open>uint32_t\<close> and the two timer registers are
  \<^verbatim>\<open>volatile uint64_t\<close> objects at fixed addresses.
\<close>

type_synonym u32 = "32 word"
type_synonym u64 = "64 word"

text \<open>
  The store maps the address of an aligned 32-bit word to its content. Every access of the
  program is an aligned word access (\<^verbatim>\<open>lr.w\<close>, \<^verbatim>\<open>sc.w\<close>) or an aligned double-word
  access (the two timer registers), so no two distinct keys overlap.
\<close>

type_synonym memory = "u32 \<Rightarrow> u32"

text \<open>The four registers that the inline assembly of \<^verbatim>\<open>atomic_lr_sc\<close> names.\<close>

datatype reg = A0 | A1 | A2 | A3

text \<open>
  The state private to one hart: the two control and status registers that
  \<^verbatim>\<open>handle_trap\<close> accesses, the integer registers, and the address registered by the last
  \<^verbatim>\<open>lr.w\<close> (\<open>None\<close> when the hart holds no reservation).
\<close>

record hart =
  mcause :: u32
  mip :: u32
  regs :: "reg \<Rightarrow> u32"
  resv :: "u32 option"

subsection \<open>The memory-mapped timer\<close>

text \<open>
  \<^verbatim>\<open>#define IO_BASE 0xc0000000\<close>,
  \<^verbatim>\<open>#define IO_MTIME (volatile uint64_t *)(IO_BASE + 0x00004000)\<close>,
  \<^verbatim>\<open>#define IO_MTIMECMP (volatile uint64_t *)(IO_BASE + 0x00004008)\<close>.
\<close>

definition IO_BASE :: u32 where
  "IO_BASE = 0xc0000000"

definition IO_MTIME :: u32 where
  "IO_MTIME = IO_BASE + 0x00004000"

definition IO_MTIMECMP :: u32 where
  "IO_MTIMECMP = IO_BASE + 0x00004008"

text \<open>
  A \<^verbatim>\<open>uint64_t\<close> access through a pointer: RISC-V is little-endian, so the low word is at
  the address itself and the high word four bytes above it.
\<close>

definition load64 :: "memory \<Rightarrow> u32 \<Rightarrow> u64" where
  "load64 m a = word_cat (m (a + 4)) (m a)"

definition store64 :: "memory \<Rightarrow> u32 \<Rightarrow> u64 \<Rightarrow> memory" where
  "store64 m a v = m(a := ucast v, a + 4 := ucast (drop_bit 32 v))"

subsection \<open>Control and status register instructions\<close>

text \<open>\<^verbatim>\<open>csrr rd, mcause\<close> reads the cause register.\<close>

definition csrr_mcause :: "hart \<Rightarrow> u32" where
  "csrr_mcause h = mcause h"

text \<open>\<^verbatim>\<open>csrc mip, rs\<close> clears in \<^verbatim>\<open>mip\<close> every bit that is set in \<^verbatim>\<open>rs\<close>.\<close>

definition csrc_mip :: "u32 \<Rightarrow> hart \<Rightarrow> hart" where
  "csrc_mip bits h = h\<lparr>mip := mip h AND NOT bits\<rparr>"

section \<open>The trap dispatcher\<close>

text \<open>
  \<^verbatim>\<open>handle_trap\<close> is executed in steps, so that what it does while it never returns can
  be stated. Its control is at one of three points: at its entry, inside a
  \<^verbatim>\<open>while (1);\<close> of a fault branch, or at its return.
\<close>

datatype ctl = At_entry | In_while_1 | At_return

text \<open>The body of \<^verbatim>\<open>while (1);\<close> is the null statement.\<close>

definition null_stmt :: "hart \<times> memory \<Rightarrow> hart \<times> memory" where
  "null_stmt s = s"

text \<open>
  One step of \<^verbatim>\<open>handle_trap\<close>.
  \<^item> From the entry: the \<^verbatim>\<open>switch\<close> on the cause read by \<^verbatim>\<open>csrr\<close>, one branch per
    group of \<^verbatim>\<open>case\<close> labels, in the order of the source. The two interrupt branches
    run to their \<^verbatim>\<open>break\<close>, after which the function returns; every other branch
    arrives at its \<^verbatim>\<open>while (1);\<close>.
  \<^item> Inside \<^verbatim>\<open>while (1);\<close>: the controlling expression is the constant 1; while it
    is not 0 the body is executed and control stays in the loop.
  \<^item> At the return nothing more of the function executes.
\<close>

fun trap_step :: "ctl \<times> hart \<times> memory \<Rightarrow> ctl \<times> hart \<times> memory" where
  "trap_step (At_entry, h, m) =
     (let c = csrr_mcause h in
      if c = 0x80000007 then
        (let h' = csrc_mip (push_bit 7 1) h;
             m' = store64 m IO_MTIMECMP (load64 m IO_MTIME + 1000)
         in (At_return, h', m'))
      else if c = 0x8000000b then
        (let h' = csrc_mip (push_bit 11 1) h
         in (At_return, h', m))
      else if c = 0 \<or> c = 1 then (In_while_1, h, m)
      else if c = 2 \<or> c = 4 \<or> c = 5 \<or> c = 6 \<or> c = 7 then (In_while_1, h, m)
      else if c = 3 then (In_while_1, h, m)
      else if c = 8 then (In_while_1, h, m)
      else (In_while_1, h, m))"
| "trap_step (In_while_1, h, m) =
     (if (1::int) \<noteq> 0 then (In_while_1, null_stmt (h, m)) else (At_return, h, m))"
| "trap_step (At_return, h, m) = (At_return, h, m)"

text \<open>
  Running \<^verbatim>\<open>handle_trap\<close> to its return. A call that never reaches the return has no
  result: the run is a partial function and \<open>None\<close> stands for not returning.
\<close>

partial_function (option) trap_run :: "ctl \<times> hart \<times> memory \<Rightarrow> (hart \<times> memory) option" where
  "trap_run c = (if fst c = At_return then Some (snd c) else trap_run (trap_step c))"

text \<open>
  \<^verbatim>\<open>handle_trap\<close>: the run from the entry. The result is \<open>Some\<close> of the hart and the
  store at the function's return, \<open>None\<close> when it does not return.
\<close>

definition handle_trap :: "hart \<Rightarrow> memory \<Rightarrow> (hart \<times> memory) option" where
  "handle_trap h m = trap_run (At_entry, h, m)"

section \<open>The reservation lock\<close>

text \<open>
  \<^verbatim>\<open>atomic_lr_sc\<close> is six assembly instructions after the label \<^verbatim>\<open>again\<close>. They are
  kept as a list of instructions, the label being the index of the instruction it
  precedes, and given the meaning that the RISC-V instruction set gives them.
\<close>

datatype instr =
    LA reg u32
  | LI reg u32
  | LR_W_AQ reg reg
  | BNE reg reg nat
  | SC_W_RL reg reg reg
  | BNEZ reg nat

definition again :: nat where
  "again = 0"

text \<open>
  \<^verbatim>\<open>again:\<close>
  \<^verbatim>\<open>la a0, 0xc0100000\<close>;
  \<^verbatim>\<open>li a1, 0\<close>;
  \<^verbatim>\<open>lr.w.aq a3, (a0)\<close>;
  \<^verbatim>\<open>bne a3, a1, again\<close>;
  \<^verbatim>\<open>sc.w.rl a3, a2, (a0)\<close>;
  \<^verbatim>\<open>bnez a3, again\<close>.
  The line \<^verbatim>\<open>la a0, lock_var\<close> of the source is commented out.
\<close>

definition atomic_lr_sc_code :: "instr list" where
  "atomic_lr_sc_code =
     [LA A0 0xc0100000,
      LI A1 0,
      LR_W_AQ A3 A0,
      BNE A3 A1 again,
      SC_W_RL A3 A2 A0,
      BNEZ A3 again]"

text \<open>The register that an instruction writes, if it writes one.\<close>

fun dest :: "instr \<Rightarrow> reg option" where
  "dest (LA rd imm) = Some rd"
| "dest (LI rd imm) = Some rd"
| "dest (LR_W_AQ rd rs1) = Some rd"
| "dest (BNE rs1 rs2 l) = None"
| "dest (SC_W_RL rd rs2 rs1) = Some rd"
| "dest (BNEZ rs l) = None"

text \<open>
  A configuration is the index of the next instruction, the hart and the store.
  \<^item> \<^verbatim>\<open>la\<close> and \<^verbatim>\<open>li\<close> load a constant.
  \<^item> \<^verbatim>\<open>lr.w rd, (rs1)\<close> loads the word at the address in \<^verbatim>\<open>rs1\<close> and registers a
    reservation on that address.
  \<^item> \<^verbatim>\<open>sc.w rd, rs2, (rs1)\<close> succeeds when the hart holds a reservation on the address
    in \<^verbatim>\<open>rs1\<close>: it then stores \<^verbatim>\<open>rs2\<close> there and writes 0 to \<^verbatim>\<open>rd\<close>; otherwise it
    stores nothing and writes the failure code 1 to \<^verbatim>\<open>rd\<close>. Either way the reservation
    is gone afterwards.
  \<^item> \<^verbatim>\<open>bne\<close> and \<^verbatim>\<open>bnez\<close> go to the label or fall through.
\<close>

type_synonym config = "nat \<times> hart \<times> memory"

definition pc_of :: "config \<Rightarrow> nat" where
  "pc_of c = fst c"

definition hart_of :: "config \<Rightarrow> hart" where
  "hart_of c = fst (snd c)"

definition mem_of :: "config \<Rightarrow> memory" where
  "mem_of c = snd (snd c)"

fun exec :: "instr \<Rightarrow> config \<Rightarrow> config" where
  "exec (LA rd imm) (pc, h, m) = (pc + 1, h\<lparr>regs := (regs h)(rd := imm)\<rparr>, m)"
| "exec (LI rd imm) (pc, h, m) = (pc + 1, h\<lparr>regs := (regs h)(rd := imm)\<rparr>, m)"
| "exec (LR_W_AQ rd rs1) (pc, h, m) =
     (pc + 1, h\<lparr>regs := (regs h)(rd := m (regs h rs1)), resv := Some (regs h rs1)\<rparr>, m)"
| "exec (BNE rs1 rs2 l) (pc, h, m) =
     (if regs h rs1 \<noteq> regs h rs2 then l else pc + 1, h, m)"
| "exec (SC_W_RL rd rs2 rs1) (pc, h, m) =
     (if resv h = Some (regs h rs1)
      then (pc + 1, h\<lparr>regs := (regs h)(rd := 0), resv := None\<rparr>, m(regs h rs1 := regs h rs2))
      else (pc + 1, h\<lparr>regs := (regs h)(rd := 1), resv := None\<rparr>, m))"
| "exec (BNEZ rs l) (pc, h, m) =
     (if regs h rs \<noteq> 0 then l else pc + 1, h, m)"

text \<open>
  One instruction of the routine. Past the last instruction the function has returned
  and nothing more of it executes.
\<close>

definition step :: "config \<Rightarrow> config" where
  "step c = (if fst c < length atomic_lr_sc_code then exec (atomic_lr_sc_code ! fst c) c else c)"

text \<open>
  Running the routine to its return. The retry loop has no bound, so the run is a partial
  function: \<open>None\<close> stands for a call that never returns.
\<close>

partial_function (option) run :: "config \<Rightarrow> config option" where
  "run c = (if fst c < length atomic_lr_sc_code then run (step c) else Some c)"

definition atomic_lr_sc :: "hart \<Rightarrow> memory \<Rightarrow> (hart \<times> memory) option" where
  "atomic_lr_sc h m = map_option snd (run (again, h, m))"

subsection \<open>Other participants\<close>

text \<open>
  A store by another participant to an address breaks the reservation that a hart holds
  on that address.
\<close>

definition lose_resv :: "u32 \<Rightarrow> hart \<Rightarrow> hart" where
  "lose_resv a h = (if resv h = Some a then h\<lparr>resv := None\<rparr> else h)"

text \<open>
  What one hart that runs the routine can see happen: its own next instruction, or a
  store of a value to an address by somebody else.
\<close>

datatype event = Own | Remote u32 u32

fun event_step :: "event \<Rightarrow> config \<Rightarrow> config" where
  "event_step Own c = step c"
| "event_step (Remote a v) (pc, h, m) = (pc, lose_resv a h, m(a := v))"

definition contended_run :: "event list \<Rightarrow> config \<Rightarrow> config" where
  "contended_run es c = fold event_step es c"

text \<open>The address that the next instruction stores to: that of a succeeding \<^verbatim>\<open>sc.w\<close>.\<close>

definition sc_address :: "config \<Rightarrow> u32 option" where
  "sc_address c =
     (case c of (pc, h, m) \<Rightarrow>
        if pc < length atomic_lr_sc_code then
          (case atomic_lr_sc_code ! pc of
             SC_W_RL rd rs2 rs1 \<Rightarrow> if resv h = Some (regs h rs1) then Some (regs h rs1) else None
           | _ \<Rightarrow> None)
        else None)"

text \<open>
  Two contenders, each with its own hart and its own place in the routine, on one store.
  A schedule names who executes the next instruction; a contender's successful store
  breaks the other's reservation on the same address.
\<close>

datatype contender = First | Second

type_synonym duo = "(nat \<times> hart) \<times> (nat \<times> hart) \<times> memory"

fun duo_step :: "contender \<Rightarrow> duo \<Rightarrow> duo" where
  "duo_step First ((pc1, h1), (pc2, h2), m) =
     (case step (pc1, h1, m) of (pc1', h1', m') \<Rightarrow>
        ((pc1', h1'),
         (pc2, case sc_address (pc1, h1, m) of None \<Rightarrow> h2 | Some a \<Rightarrow> lose_resv a h2),
         m'))"
| "duo_step Second ((pc1, h1), (pc2, h2), m) =
     (case step (pc2, h2, m) of (pc2', h2', m') \<Rightarrow>
        ((pc1, case sc_address (pc2, h2, m) of None \<Rightarrow> h1 | Some a \<Rightarrow> lose_resv a h1),
         (pc2', h2'),
         m'))"

definition duo_run :: "contender list \<Rightarrow> duo \<Rightarrow> duo" where
  "duo_run sched d = fold duo_step sched d"

text \<open>A contender has acquired the lock when it has left the routine.\<close>

definition acquired :: "nat \<times> hart \<Rightarrow> bool" where
  "acquired p = (fst p = length atomic_lr_sc_code)"

subsection \<open>Invariants of the routine\<close>

text \<open>
  The configurations that a hart goes through when it runs the routine alone against a
  lock word that is not 0: it never gets past the \<^verbatim>\<open>bne\<close>.
\<close>

definition spinning :: "config \<Rightarrow> bool" where
  "spinning c = (case c of (pc, h, m) \<Rightarrow>
     m 0xc0100000 \<noteq> 0 \<and> pc \<le> 3
     \<and> (1 \<le> pc \<longrightarrow> regs h A0 = 0xc0100000)
     \<and> (2 \<le> pc \<longrightarrow> regs h A1 = 0)
     \<and> (pc = 3 \<longrightarrow> regs h A3 = m 0xc0100000))"

text \<open>From the second instruction on, \<^verbatim>\<open>a0\<close> holds the address \<open>0xc0100000\<close>.\<close>

definition a0_loaded :: "config \<Rightarrow> bool" where
  "a0_loaded c = (1 \<le> pc_of c \<longrightarrow> regs (hart_of c) A0 = 0xc0100000)"

text \<open>
  Two contenders that both entered the routine with a non-zero \<^verbatim>\<open>a2\<close>. A contender
  has won once its \<^verbatim>\<open>sc.w\<close> has succeeded. While the lock word is 0 nobody has won;
  once it is not 0, one contender has won, the lock word holds its \<^verbatim>\<open>a2\<close>, and the
  other is shut out: it holds no reservation with which its \<^verbatim>\<open>sc.w\<close> could succeed.
\<close>

definition contender_ok :: "nat \<times> hart \<Rightarrow> bool" where
  "contender_ok p = (case p of (pc, h) \<Rightarrow>
     pc \<le> 6
     \<and> (1 \<le> pc \<longrightarrow> regs h A0 = 0xc0100000)
     \<and> (2 \<le> pc \<longrightarrow> regs h A1 = 0)
     \<and> regs h A2 \<noteq> 0)"

definition won :: "nat \<times> hart \<Rightarrow> bool" where
  "won p = (case p of (pc, h) \<Rightarrow> pc = 6 \<or> (pc = 5 \<and> regs h A3 = 0))"

definition shut_out :: "nat \<times> hart \<Rightarrow> bool" where
  "shut_out p = (case p of (pc, h) \<Rightarrow>
     (pc = 3 \<longrightarrow> regs h A3 \<noteq> 0 \<or> resv h \<noteq> Some 0xc0100000)
     \<and> (pc = 4 \<longrightarrow> resv h \<noteq> Some 0xc0100000)
     \<and> (pc = 5 \<longrightarrow> regs h A3 \<noteq> 0)
     \<and> pc \<noteq> 6)"

definition duo_inv :: "duo \<Rightarrow> bool" where
  "duo_inv d = (case d of (p1, p2, m) \<Rightarrow>
     contender_ok p1 \<and> contender_ok p2
     \<and> (if m 0xc0100000 = 0 then \<not> won p1 \<and> \<not> won p2
        else (won p1 \<and> shut_out p2 \<and> m 0xc0100000 = regs (snd p1) A2)
           \<or> (won p2 \<and> shut_out p1 \<and> m 0xc0100000 = regs (snd p2) A2)))"

section \<open>The program\<close>

text \<open>
  \<^verbatim>\<open>uint32_t lock_var = 0;\<close> is a word of the store at the address that the linker gives
  it. That address is a parameter.
\<close>

definition lock_var :: "u32 \<Rightarrow> memory \<Rightarrow> u32" where
  "lock_var addr m = m addr"

text \<open>
  \<^verbatim>\<open>main\<close> arms the timer, prints the greeting, calls \<^verbatim>\<open>atomic_lr_sc\<close> and returns 0.
  \<^verbatim>\<open>printf\<close> belongs to the C library: what it does to the hart and the store is a
  parameter.
\<close>

definition greeting :: string where
  "greeting = ''Hello RISC-V on FPGA!'' @ [CHR 0x0A]"

definition main :: "(string \<Rightarrow> hart \<times> memory \<Rightarrow> hart \<times> memory) \<Rightarrow> hart \<Rightarrow> memory
                      \<Rightarrow> (int \<times> hart \<times> memory) option" where
  "main printf h m =
     (let m1 = store64 m IO_MTIMECMP (load64 m IO_MTIME + 100);
          (h2, m2) = printf greeting (h, m1)
      in case atomic_lr_sc h2 m2 of
           None \<Rightarrow> None
         | Some (h3, m3) \<Rightarrow> Some (0, h3, m3))"

section \<open>Concrete states\<close>

definition hart0 :: hart where
  "hart0 = \<lparr>mcause = 0, mip = 0, regs = (\<lambda>r. 0), resv = None\<rparr>"

definition mem0 :: memory where
  "mem0 = (\<lambda>a. 0)"

text \<open>A \<^verbatim>\<open>printf\<close> that sends its characters out and changes neither hart nor store.\<close>

definition printf_quiet :: "string \<Rightarrow> hart \<times> memory \<Rightarrow> hart \<times> memory" where
  "printf_quiet str s = s"

text \<open>
  Two contenders at the start of the routine, all registers 0, the lock word 0.
\<close>

definition duo0 :: duo where
  "duo0 = ((again, hart0), (again, hart0), mem0)"

text \<open>
  A schedule of one contended round and a retry: both contenders execute \<^verbatim>\<open>la\<close>,
  \<^verbatim>\<open>li\<close>, \<^verbatim>\<open>lr.w\<close> and \<^verbatim>\<open>bne\<close>; then the first executes its \<^verbatim>\<open>sc.w\<close>, the second
  its \<^verbatim>\<open>sc.w\<close>, the first its \<^verbatim>\<open>bnez\<close>, the second its \<^verbatim>\<open>bnez\<close>; then the second
  executes six more instructions.
\<close>

definition round_schedule :: "contender list" where
  "round_schedule =
     [First, First, First, First, Second, Second, Second, Second,
      First, Second, First, Second]"

definition retry_schedule :: "contender list" where
  "retry_schedule = round_schedule @ [Second, Second, Second, Second, Second, Second]"

section \<open>Facts about words and the store\<close>

lemma word_cat_halves:
  "word_cat (ucast (drop_bit 32 v) :: u32) (ucast v :: u32) = (v :: u64)"
  by (rule bit_word_eqI) (auto simp: bit_word_cat_iff bit_ucast_iff bit_drop_bit_eq)

lemma load64_store64_same: "load64 (store64 m a v) a = v"
  by (simp add: load64_def store64_def word_cat_halves)

lemma load64_store64_other:
  "b \<noteq> a \<Longrightarrow> b \<noteq> a + 4 \<Longrightarrow> b + 4 \<noteq> a \<Longrightarrow> load64 (store64 m a v) b = load64 m b"
  by (simp add: load64_def store64_def)

lemma store64_other: "b \<noteq> a \<Longrightarrow> b \<noteq> a + 4 \<Longrightarrow> store64 m a v b = m b"
  by (simp add: store64_def)

lemma bit_one_hot: "bit (push_bit n 1 :: u32) i \<longleftrightarrow> i = n \<and> n < 32"
  unfolding bit_push_bit_iff bit_1_iff by auto

lemma csrc_mip_bit:
  "bit (mip (csrc_mip (push_bit n 1) h)) i \<longleftrightarrow> bit (mip h) i \<and> \<not> (i = n \<and> n < 32)"
  unfolding csrc_mip_def by (simp add: bit_and_iff bit_not_iff bit_one_hot del: push_bit_of_1)
    (auto dest: bit_imp_le_length)

section \<open>Facts about the trap dispatcher\<close>

lemma trap_step_in_while_1: "trap_step (In_while_1, h, m) = (In_while_1, h, m)"
  by (simp add: null_stmt_def)

lemma trap_steps_in_while_1: "(trap_step ^^ n) (In_while_1, h, m) = (In_while_1, h, m)"
  by (induction n) (simp_all add: null_stmt_def)

lemma trap_run_in_while_1: "trap_run (In_while_1, h, m) = None"
proof (rule ccontr)
  assume "trap_run (In_while_1, h, m) \<noteq> None"
  then obtain y where "trap_run (In_while_1, h, m) = Some y" by auto
  then have "fst (In_while_1, h, m) \<noteq> In_while_1"
  proof (rule trap_run.raw_induct [rotated, where P = "\<lambda>c y. fst c \<noteq> In_while_1"])
    fix f c y
    assume ih: "\<And>x y. f x = Some y \<Longrightarrow> fst x \<noteq> In_while_1"
      and eq: "(if fst c = At_return then Some (snd c) else f (trap_step c)) = Some y"
    show "fst c \<noteq> In_while_1"
    proof
      assume loop: "fst c = In_while_1"
      then obtain h m where c: "c = (In_while_1, h, m)" by (cases c) auto
      with eq have "f (In_while_1, h, m) = Some y"
        by (simp add: null_stmt_def)
      then have "fst (In_while_1, h, m) \<noteq> In_while_1" by (rule ih)
      then show False by simp
    qed
  qed
  then show False by simp
qed

lemma trap_run_at_return: "trap_run (At_return, h, m) = Some (h, m)"
  by (subst trap_run.simps) simp

lemma trap_run_at_entry: "trap_run (At_entry, h, m) = trap_run (trap_step (At_entry, h, m))"
  by (subst trap_run.simps) simp

text \<open>What a call of \<^verbatim>\<open>handle_trap\<close> amounts to, by the cause.\<close>

lemma handle_trap_cases:
  "handle_trap h m =
     (let c = csrr_mcause h in
      if c = 0x80000007 then
        (let h' = csrc_mip (push_bit 7 1) h;
             m' = store64 m IO_MTIMECMP (load64 m IO_MTIME + 1000)
         in Some (h', m'))
      else if c = 0x8000000b then
        (let h' = csrc_mip (push_bit 11 1) h
         in Some (h', m))
      else None)"
  unfolding handle_trap_def trap_run_at_entry
  by (simp add: Let_def trap_run_at_return trap_run_in_while_1 del: push_bit_of_1)

section \<open>Facts about the lock routine\<close>

lemma step_la: "step (0, h, m) = (1, h\<lparr>regs := (regs h)(A0 := 0xc0100000)\<rparr>, m)"
  by (simp add: step_def atomic_lr_sc_code_def)

lemma step_li: "step (Suc 0, h, m) = (2, h\<lparr>regs := (regs h)(A1 := 0)\<rparr>, m)"
  by (simp add: step_def atomic_lr_sc_code_def)

lemma step_lr:
  "step (2, h, m) = (3, h\<lparr>regs := (regs h)(A3 := m (regs h A0)), resv := Some (regs h A0)\<rparr>, m)"
  by (simp add: step_def atomic_lr_sc_code_def)

lemma step_bne: "step (3, h, m) = (if regs h A3 \<noteq> regs h A1 then 0 else 4, h, m)"
  by (simp add: step_def atomic_lr_sc_code_def again_def)

lemma step_sc:
  "step (4, h, m) =
     (if resv h = Some (regs h A0)
      then (5, h\<lparr>regs := (regs h)(A3 := 0), resv := None\<rparr>, m(regs h A0 := regs h A2))
      else (5, h\<lparr>regs := (regs h)(A3 := 1), resv := None\<rparr>, m))"
  by (simp add: step_def atomic_lr_sc_code_def)

lemma step_bnez: "step (5, h, m) = (if regs h A3 \<noteq> 0 then 0 else 6, h, m)"
  by (simp add: step_def atomic_lr_sc_code_def again_def)

lemma step_returned: "6 \<le> pc \<Longrightarrow> step (pc, h, m) = (pc, h, m)"
  by (simp add: step_def atomic_lr_sc_code_def)

lemmas step_simps = step_la step_li step_lr step_bne step_sc step_bnez

lemma pc_cases:
  "pc < 6 \<Longrightarrow> pc = 0 \<or> pc = Suc 0 \<or> pc = 2 \<or> pc = 3 \<or> pc = 4 \<or> pc = (5::nat)"
  by arith

lemma funpow_unfold:
  "(f ^^ 2) x = f (f x)" "(f ^^ 3) x = f (f (f x))" "(f ^^ 4) x = f (f (f (f x)))"
  by (simp_all add: eval_nat_numeral)

lemma run_step: "fst c < 6 \<Longrightarrow> run c = run (step c)"
  by (subst run.simps) (simp add: atomic_lr_sc_code_def)

lemma run_done: "6 \<le> fst c \<Longrightarrow> run c = Some c"
  by (subst run.simps) (simp add: atomic_lr_sc_code_def)

lemma atomic_lr_sc_free:
  assumes "m 0xc0100000 = 0"
  shows "atomic_lr_sc h m =
    Some (h\<lparr>regs := (regs h)(A0 := 0xc0100000, A1 := 0, A3 := 0), resv := None\<rparr>,
          m(0xc0100000 := regs h A2))"
  using assms
  by (simp add: atomic_lr_sc_def again_def run_step run_done step_simps)

lemma spinning_step: "spinning c \<Longrightarrow> spinning (step c)"
proof -
  assume a: "spinning c"
  obtain pc h m where c: "c = (pc, h, m)" by (cases c)
  from a c have "pc < 6" by (simp add: spinning_def)
  then have "pc = 0 \<or> pc = Suc 0 \<or> pc = 2 \<or> pc = 3 \<or> pc = 4 \<or> pc = 5" by (rule pc_cases)
  then show ?thesis
    using a c by (auto simp: spinning_def step_simps)
qed

lemma spinning_not_done: "spinning c \<Longrightarrow> fst c < length atomic_lr_sc_code"
  by (auto simp: spinning_def atomic_lr_sc_code_def)

lemma run_spinning: "spinning c \<Longrightarrow> run c = None"
proof (rule ccontr)
  assume sp: "spinning c" and "run c \<noteq> None"
  then obtain y where "run c = Some y" by auto
  then have "\<not> spinning c"
  proof (rule run.raw_induct [rotated, where P = "\<lambda>c y. \<not> spinning c"])
    fix f c y
    assume ih: "\<And>x y. f x = Some y \<Longrightarrow> \<not> spinning x"
      and eq: "(if fst c < length atomic_lr_sc_code then f (step c) else Some c) = Some y"
    show "\<not> spinning c"
    proof
      assume s: "spinning c"
      with eq have "f (step c) = Some y" by (simp add: spinning_not_done)
      then have "\<not> spinning (step c)" by (rule ih)
      with s show False by (simp add: spinning_step)
    qed
  qed
  with sp show False by simp
qed

lemma atomic_lr_sc_busy: "m 0xc0100000 \<noteq> 0 \<Longrightarrow> atomic_lr_sc h m = None"
  by (simp add: atomic_lr_sc_def again_def run_spinning spinning_def)

text \<open>Register \<^verbatim>\<open>a2\<close> and the address in \<^verbatim>\<open>a0\<close> along any run.\<close>

lemma step_a2: "regs (hart_of (step c)) A2 = regs (hart_of c) A2"
proof (cases "fst c < 6")
  case True
  obtain pc h m where c: "c = (pc, h, m)" by (cases c)
  from True c have "pc = 0 \<or> pc = Suc 0 \<or> pc = 2 \<or> pc = 3 \<or> pc = 4 \<or> pc = 5"
    by (simp add: pc_cases)
  then show ?thesis
    using c by (auto simp: hart_of_def step_simps)
next
  case False
  then show ?thesis by (simp add: step_def atomic_lr_sc_code_def)
qed

lemma event_step_a2: "regs (hart_of (event_step e c)) A2 = regs (hart_of c) A2"
proof (cases e)
  case Own
  then show ?thesis by (simp add: step_a2)
next
  case (Remote a v)
  obtain pc h m where c: "c = (pc, h, m)" by (cases c)
  with Remote show ?thesis by (simp add: hart_of_def lose_resv_def)
qed

lemma contended_run_a2: "regs (hart_of (contended_run es c)) A2 = regs (hart_of c) A2"
  unfolding contended_run_def
  by (induction es arbitrary: c) (simp_all add: event_step_a2)

lemma step_a0: "a0_loaded c \<Longrightarrow> a0_loaded (step c)"
proof (cases "fst c < 6")
  case True
  assume a: "a0_loaded c"
  obtain pc h m where c: "c = (pc, h, m)" by (cases c)
  from True c have "pc = 0 \<or> pc = Suc 0 \<or> pc = 2 \<or> pc = 3 \<or> pc = 4 \<or> pc = 5"
    by (simp add: pc_cases)
  then show ?thesis
    using a c by (auto simp: a0_loaded_def hart_of_def pc_of_def step_simps)
next
  case False
  assume "a0_loaded c"
  with False show ?thesis by (simp add: step_def atomic_lr_sc_code_def)
qed

lemma event_step_a0: "a0_loaded c \<Longrightarrow> a0_loaded (event_step e c)"
proof (cases e)
  case Own
  assume "a0_loaded c"
  with Own show ?thesis by (simp add: step_a0)
next
  case (Remote a v)
  assume a: "a0_loaded c"
  obtain pc h m where c: "c = (pc, h, m)" by (cases c)
  with Remote a show ?thesis by (simp add: a0_loaded_def hart_of_def pc_of_def lose_resv_def)
qed

lemma contended_run_a0: "a0_loaded c \<Longrightarrow> a0_loaded (contended_run es c)"
  unfolding contended_run_def
  by (induction es arbitrary: c) (simp_all add: event_step_a0)

lemma sc_address_Some:
  "sc_address c = Some a \<longleftrightarrow> pc_of c = 4 \<and> resv (hart_of c) = Some a \<and> regs (hart_of c) A0 = a"
proof -
  obtain pc h m where c: "c = (pc, h, m)" by (cases c)
  show ?thesis
  proof (cases "pc < 6")
    case True
    then have "pc = 0 \<or> pc = Suc 0 \<or> pc = 2 \<or> pc = 3 \<or> pc = 4 \<or> pc = 5"
      by (rule pc_cases)
    then show ?thesis
      using c by (auto simp: sc_address_def atomic_lr_sc_code_def pc_of_def hart_of_def
          split: if_splits)
  next
    case False
    then show ?thesis
      using c by (auto simp: sc_address_def atomic_lr_sc_code_def pc_of_def hart_of_def)
  qed
qed

lemma step_mip: "mip (hart_of (step c)) = mip (hart_of c)"
proof (cases "fst c < 6")
  case True
  obtain pc h m where c: "c = (pc, h, m)" by (cases c)
  from True c have "pc = 0 \<or> pc = Suc 0 \<or> pc = 2 \<or> pc = 3 \<or> pc = 4 \<or> pc = 5"
    by (simp add: pc_cases)
  then show ?thesis
    using c by (auto simp: hart_of_def step_simps)
next
  case False
  then show ?thesis by (simp add: step_def atomic_lr_sc_code_def)
qed

lemma step_mem_other:
  assumes "a0_loaded c" and "a \<noteq> 0xc0100000"
  shows "mem_of (step c) a = mem_of c a"
proof (cases "fst c < 6")
  case True
  obtain pc h m where c: "c = (pc, h, m)" by (cases c)
  from True c have "pc = 0 \<or> pc = Suc 0 \<or> pc = 2 \<or> pc = 3 \<or> pc = 4 \<or> pc = 5"
    by (simp add: pc_cases)
  then show ?thesis
    using c assms by (auto simp: mem_of_def hart_of_def pc_of_def a0_loaded_def step_simps)
next
  case False
  then show ?thesis by (simp add: step_def atomic_lr_sc_code_def)
qed

lemma steps_frame:
  assumes "a0_loaded c"
  shows "a0_loaded ((step ^^ n) c)
         \<and> mip (hart_of ((step ^^ n) c)) = mip (hart_of c)
         \<and> (\<forall>a. a \<noteq> 0xc0100000 \<longrightarrow> mem_of ((step ^^ n) c) a = mem_of c a)"
  using assms by (induction n) (simp_all add: step_a0 step_mip step_mem_other)

lemma a0_loaded_again: "a0_loaded (again, h, m)"
  by (simp add: a0_loaded_def pc_of_def again_def)

lemma lock_word_apart:
  "IO_MTIME \<noteq> 0xc0100000" "IO_MTIME + 4 \<noteq> 0xc0100000"
  "IO_MTIMECMP \<noteq> 0xc0100000" "IO_MTIMECMP + 4 \<noteq> 0xc0100000"
  by (simp_all add: IO_MTIMECMP_def IO_MTIME_def IO_BASE_def)

lemma load64_cong: "m' a = m a \<Longrightarrow> m' (a + 4) = m (a + 4) \<Longrightarrow> load64 m' a = load64 m a"
  by (simp add: load64_def)

lemma sc_address_simps:
  "sc_address (0, h, m) = None" "sc_address (Suc 0, h, m) = None" "sc_address (2, h, m) = None"
  "sc_address (3, h, m) = None" "sc_address (5, h, m) = None" "6 \<le> pc \<Longrightarrow> sc_address (pc, h, m) = None"
  "sc_address (4, h, m) = (if resv h = Some (regs h A0) then Some (regs h A0) else None)"
  by (simp_all add: sc_address_def atomic_lr_sc_code_def)

lemma atomic_lr_sc_Some:
  assumes "atomic_lr_sc h m = Some (h', m')"
  shows "m 0xc0100000 = 0
         \<and> h' = h\<lparr>regs := (regs h)(A0 := 0xc0100000, A1 := 0, A3 := 0), resv := None\<rparr>
         \<and> m' = m(0xc0100000 := regs h A2)"
proof (cases "m 0xc0100000 = 0")
  case True
  with assms show ?thesis by (simp add: atomic_lr_sc_free)
next
  case False
  with assms show ?thesis by (simp add: atomic_lr_sc_busy)
qed

lemma load64_upd_other: "b \<noteq> a \<Longrightarrow> b + 4 \<noteq> a \<Longrightarrow> load64 (m(a := v)) b = load64 m b"
  by (simp add: load64_def)

lemma store64_upd_swap:
  "lv \<noteq> a \<Longrightarrow> lv \<noteq> a + 4 \<Longrightarrow> store64 (m(lv := v)) a x = (store64 m a x)(lv := v)"
  by (auto simp: store64_def)

lemma handle_trap_upd:
  assumes "lv \<noteq> IO_MTIME" "lv \<noteq> IO_MTIME + 4" "lv \<noteq> IO_MTIMECMP" "lv \<noteq> IO_MTIMECMP + 4"
  shows "handle_trap h (m(lv := v)) = map_option (\<lambda>(h', m'). (h', m'(lv := v))) (handle_trap h m)"
proof -
  have t: "load64 (m(lv := v)) IO_MTIME = load64 m IO_MTIME"
    using assms by (simp add: load64_upd_other)
  show ?thesis
    using assms
    by (simp add: handle_trap_cases Let_def t store64_upd_swap del: push_bit_of_1)
qed

lemma handle_trap_mem_other:
  assumes "handle_trap h m = Some (h', m')" and "a \<noteq> IO_MTIMECMP" and "a \<noteq> IO_MTIMECMP + 4"
  shows "m' a = m a"
  using assms
  by (auto simp: handle_trap_cases Let_def store64_other split: if_splits)

lemma atomic_lr_sc_upd:
  assumes "lv \<noteq> 0xc0100000"
  shows "atomic_lr_sc h (m(lv := v)) = map_option (\<lambda>(h', m'). (h', m'(lv := v))) (atomic_lr_sc h m)"
proof (cases "m 0xc0100000 = 0")
  case True
  with assms have "(m(lv := v)) 0xc0100000 = 0" by simp
  from atomic_lr_sc_free [where m = "m(lv := v)", OF this] atomic_lr_sc_free [where m = m, OF True] assms
  show ?thesis by (simp add: fun_upd_twist)
next
  case False
  with assms have "(m(lv := v)) 0xc0100000 \<noteq> 0" by simp
  from atomic_lr_sc_busy [where m = "m(lv := v)", OF this] atomic_lr_sc_busy [where m = m, OF False]
  show ?thesis by simp
qed

section \<open>Facts about two contenders\<close>

lemma pc_cases7:
  "pc \<le> 6 \<Longrightarrow> pc = 0 \<or> pc = Suc 0 \<or> pc = 2 \<or> pc = 3 \<or> pc = 4 \<or> pc = 5 \<or> pc = (6::nat)"
  by arith

lemma duo_inv_First: "duo_inv d \<Longrightarrow> duo_inv (duo_step First d)"
proof -
  assume inv: "duo_inv d"
  obtain pc1 h1 pc2 h2 m where d: "d = ((pc1, h1), (pc2, h2), m)"
    by (cases d) auto
  from inv d have "pc1 \<le> 6" by (simp add: duo_inv_def contender_ok_def)
  then have "pc1 = 0 \<or> pc1 = Suc 0 \<or> pc1 = 2 \<or> pc1 = 3 \<or> pc1 = 4 \<or> pc1 = 5 \<or> pc1 = 6"
    by (rule pc_cases7)
  then show ?thesis
    using inv d
    by (elim disjE)
      (auto simp: duo_inv_def contender_ok_def won_def shut_out_def step_simps step_returned
        sc_address_simps lose_resv_def split: if_splits)
qed

lemma duo_inv_Second: "duo_inv d \<Longrightarrow> duo_inv (duo_step Second d)"
proof -
  assume inv: "duo_inv d"
  obtain pc1 h1 pc2 h2 m where d: "d = ((pc1, h1), (pc2, h2), m)"
    by (cases d) auto
  from inv d have "pc2 \<le> 6" by (simp add: duo_inv_def contender_ok_def)
  then have "pc2 = 0 \<or> pc2 = Suc 0 \<or> pc2 = 2 \<or> pc2 = 3 \<or> pc2 = 4 \<or> pc2 = 5 \<or> pc2 = 6"
    by (rule pc_cases7)
  then show ?thesis
    using inv d
    by (elim disjE)
      (auto simp: duo_inv_def contender_ok_def won_def shut_out_def step_simps step_returned
        sc_address_simps lose_resv_def split: if_splits)
qed

lemma duo_inv_run: "duo_inv d \<Longrightarrow> duo_inv (duo_run sched d)"
  unfolding duo_run_def
proof (induction sched arbitrary: d)
  case Nil
  then show ?case by simp
next
  case (Cons w ws)
  then show ?case by (cases w) (simp_all add: duo_inv_First duo_inv_Second)
qed

lemma duo_inv_start:
  "m 0xc0100000 = 0 \<Longrightarrow> regs h1 A2 \<noteq> 0 \<Longrightarrow> regs h2 A2 \<noteq> 0
   \<Longrightarrow> duo_inv ((again, h1), (again, h2), m)"
  by (simp add: duo_inv_def contender_ok_def won_def again_def)

lemma duo_inv_exclusive:
  "duo_inv (p1, p2, m) \<Longrightarrow> \<not> (acquired p1 \<and> acquired p2)"
  by (auto simp: duo_inv_def acquired_def atomic_lr_sc_code_def won_def shut_out_def
      split: if_splits prod.splits)

text \<open>
  When both contenders enter with a non-zero \<^verbatim>\<open>a2\<close> and the lock word is 0, no
  schedule lets both of them leave the routine.
\<close>

lemma duo_exclusive_when_a2_set:
  assumes "m 0xc0100000 = 0" and "regs h1 A2 \<noteq> 0" and "regs h2 A2 \<noteq> 0"
  shows "\<not> (acquired (fst (duo_run sched ((again, h1), (again, h2), m)))
            \<and> acquired (fst (snd (duo_run sched ((again, h1), (again, h2), m)))))"
proof -
  obtain p1 p2 m' where r: "duo_run sched ((again, h1), (again, h2), m) = (p1, p2, m')"
    by (cases "duo_run sched ((again, h1), (again, h2), m)")
  from assms have "duo_inv ((again, h1), (again, h2), m)"
    by (rule duo_inv_start)
  then have "duo_inv (duo_run sched ((again, h1), (again, h2), m))"
    by (rule duo_inv_run)
  with r have "\<not> (acquired p1 \<and> acquired p2)"
    by (simp add: duo_inv_exclusive)
  with r show ?thesis by simp
qed

text \<open>
  In the contended round, when the first contender enters with a non-zero \<^verbatim>\<open>a2\<close>: its
  \<^verbatim>\<open>sc.w\<close> succeeds and it leaves the routine, the second contender's \<^verbatim>\<open>sc.w\<close> fails
  and it is back at \<^verbatim>\<open>again\<close>, and the lock word holds the first contender's \<^verbatim>\<open>a2\<close>.
\<close>

lemma duo_round_when_a2_set:
  assumes "m 0xc0100000 = 0" and "regs h1 A2 \<noteq> 0"
  shows "acquired (fst (duo_run round_schedule ((again, h1), (again, h2), m)))
         \<and> fst (fst (snd (duo_run round_schedule ((again, h1), (again, h2), m)))) = again
         \<and> regs (snd (fst (snd (duo_run round_schedule ((again, h1), (again, h2), m))))) A3 = 1
         \<and> snd (snd (duo_run round_schedule ((again, h1), (again, h2), m))) 0xc0100000 = regs h1 A2"
  using assms
  by (simp add: duo_run_def round_schedule_def acquired_def again_def
      step_simps sc_address_simps lose_resv_def atomic_lr_sc_code_def)

section \<open>Timer interrupt\<close>

text \<open>
  C1. When the cause register holds \<open>0x80000007\<close>, \<^verbatim>\<open>handle_trap\<close> returns; at its return
  bit 7 of \<^verbatim>\<open>mip\<close> is clear, every other bit of \<^verbatim>\<open>mip\<close> is as it was, and the timer compare
  register holds the counter value that the handler read plus 1000, the sum taken in the
  64 bits of the register. A counter of 5000 gives a compare value of 6000.
\<close>

theorem handle_trap_timer:
  assumes "mcause h = 0x80000007"
  shows "\<exists>h' m'. handle_trap h m = Some (h', m')
           \<and> \<not> bit (mip h') 7
           \<and> (\<forall>i. i \<noteq> 7 \<longrightarrow> bit (mip h') i = bit (mip h) i)
           \<and> load64 m' IO_MTIMECMP = load64 m IO_MTIME + 1000
           \<and> unat (load64 m' IO_MTIMECMP) = (unat (load64 m IO_MTIME) + 1000) mod 2 ^ 64
           \<and> (load64 m IO_MTIME = 5000 \<longrightarrow> load64 m' IO_MTIMECMP = 6000)"
proof -
  let ?h = "csrc_mip (push_bit 7 1) h"
  let ?m = "store64 m IO_MTIMECMP (load64 m IO_MTIME + 1000)"
  have ret: "handle_trap h m = Some (?h, ?m)"
    using assms by (simp add: handle_trap_cases csrr_mcause_def Let_def del: push_bit_of_1)
  have b7: "\<not> bit (mip ?h) 7"
    unfolding csrc_mip_bit by simp
  have others: "\<forall>i. i \<noteq> 7 \<longrightarrow> bit (mip ?h) i = bit (mip h) i"
    unfolding csrc_mip_bit by simp
  have cmp: "load64 ?m IO_MTIMECMP = load64 m IO_MTIME + 1000"
    by (rule load64_store64_same)
  have cmp_nat: "unat (load64 ?m IO_MTIMECMP) = (unat (load64 m IO_MTIME) + 1000) mod 2 ^ 64"
    unfolding cmp by (simp add: unat_word_ariths)
  have ex: "load64 m IO_MTIME = 5000 \<longrightarrow> load64 ?m IO_MTIMECMP = 6000"
    unfolding cmp by simp
  from ret b7 others cmp cmp_nat ex show ?thesis by blast
qed

theorem handle_trap_timer_witness:
  "mcause (hart0\<lparr>mcause := 0x80000007, mip := 0x880\<rparr>) = 0x80000007
   \<and> (\<exists>h' m'. handle_trap (hart0\<lparr>mcause := 0x80000007, mip := 0x880\<rparr>)
                  (store64 mem0 IO_MTIME 5000) = Some (h', m')
        \<and> \<not> bit (mip h') 7
        \<and> load64 m' IO_MTIMECMP = 6000)"
proof -
  have c: "mcause (hart0\<lparr>mcause := 0x80000007, mip := 0x880\<rparr>) = 0x80000007"
    by simp
  have t: "load64 (store64 mem0 IO_MTIME 5000) IO_MTIME = 5000"
    by (rule load64_store64_same)
  from handle_trap_timer [OF c, of "store64 mem0 IO_MTIME 5000"] t c
  show ?thesis by auto
qed

section \<open>External interrupt\<close>

text \<open>
  C5. When the cause register holds \<open>0x8000000b\<close>, \<^verbatim>\<open>handle_trap\<close> returns; the
  only change is that bit 11 of \<^verbatim>\<open>mip\<close> is cleared: every other bit of \<^verbatim>\<open>mip\<close>, the
  rest of the hart and the whole store are as they were, so the timer compare register is
  untouched.
\<close>

theorem handle_trap_external:
  assumes "mcause h = 0x8000000b"
  shows "\<exists>h' m'. handle_trap h m = Some (h', m')
           \<and> \<not> bit (mip h') 11
           \<and> (\<forall>i. i \<noteq> 11 \<longrightarrow> bit (mip h') i = bit (mip h) i)
           \<and> h' = h\<lparr>mip := mip h'\<rparr>
           \<and> m' = m
           \<and> load64 m' IO_MTIMECMP = load64 m IO_MTIMECMP"
proof -
  let ?h = "csrc_mip (push_bit 11 1) h"
  have ret: "handle_trap h m = Some (?h, m)"
    using assms by (simp add: handle_trap_cases csrr_mcause_def Let_def del: push_bit_of_1)
  have b11: "\<not> bit (mip ?h) 11"
    unfolding csrc_mip_bit by simp
  have others: "\<forall>i. i \<noteq> 11 \<longrightarrow> bit (mip ?h) i = bit (mip h) i"
    unfolding csrc_mip_bit by simp
  have frame: "?h = h\<lparr>mip := mip ?h\<rparr>"
    by (simp add: csrc_mip_def)
  from ret b11 others frame show ?thesis by blast
qed

theorem handle_trap_external_witness:
  "mcause (hart0\<lparr>mcause := 0x8000000b, mip := 0x880\<rparr>) = 0x8000000b
   \<and> (\<exists>h' m'. handle_trap (hart0\<lparr>mcause := 0x8000000b, mip := 0x880\<rparr>)
                  (store64 mem0 IO_MTIMECMP 6000) = Some (h', m')
        \<and> \<not> bit (mip h') 11
        \<and> load64 m' IO_MTIMECMP = 6000)"
proof -
  have c: "mcause (hart0\<lparr>mcause := 0x8000000b, mip := 0x880\<rparr>) = 0x8000000b"
    by simp
  have t: "load64 (store64 mem0 IO_MTIMECMP 6000) IO_MTIMECMP = 6000"
    by (rule load64_store64_same)
  from handle_trap_external [OF c, of "store64 mem0 IO_MTIMECMP 6000"] t c
  show ?thesis by auto
qed

section \<open>Exceptions and unknown causes\<close>

text \<open>
  C4. For every cause other than the two interrupt causes, that is for the exception codes
  0 to 8 and for every value that no \<^verbatim>\<open>case\<close> label names, \<^verbatim>\<open>handle_trap\<close> does not
  return. Its first step takes it into \<^verbatim>\<open>while (1);\<close> with the hart and the store as
  they were at the call, and after any number of further steps it is still in that loop
  with the same hart and the same store: it never reaches its return, and it writes no
  register and no memory, neither before the loop nor in it.
\<close>

theorem handle_trap_halts:
  assumes "mcause h \<noteq> 0x80000007" and "mcause h \<noteq> 0x8000000b"
  shows "handle_trap h m = None
         \<and> trap_step (At_entry, h, m) = (In_while_1, h, m)
         \<and> (\<forall>n. (trap_step ^^ Suc n) (At_entry, h, m) = (In_while_1, h, m))"
proof -
  have enter: "trap_step (At_entry, h, m) = (In_while_1, h, m)"
    using assms by (simp add: csrr_mcause_def Let_def)
  have stay: "(trap_step ^^ Suc n) (At_entry, h, m) = (In_while_1, h, m)" for n
    unfolding funpow_Suc_right o_apply enter by (rule trap_steps_in_while_1)
  have never: "handle_trap h m = None"
    using assms by (simp add: handle_trap_cases csrr_mcause_def Let_def)
  from never enter stay show ?thesis
    by blast
qed

theorem handle_trap_halts_witness:
  "mcause (hart0\<lparr>mcause := 2\<rparr>) \<noteq> 0x80000007
   \<and> mcause (hart0\<lparr>mcause := 2\<rparr>) \<noteq> 0x8000000b
   \<and> handle_trap (hart0\<lparr>mcause := 2\<rparr>) mem0 = None
   \<and> (trap_step ^^ 3) (At_entry, hart0\<lparr>mcause := 2\<rparr>, mem0)
       = (In_while_1, hart0\<lparr>mcause := 2\<rparr>, mem0)
   \<and> handle_trap (hart0\<lparr>mcause := 0x80000003\<rparr>) mem0 = None"
proof -
  have a: "mcause (hart0\<lparr>mcause := 2\<rparr>) \<noteq> 0x80000007"
    and b: "mcause (hart0\<lparr>mcause := 2\<rparr>) \<noteq> 0x8000000b"
    and c: "mcause (hart0\<lparr>mcause := 0x80000003\<rparr>) \<noteq> 0x80000007"
    and d: "mcause (hart0\<lparr>mcause := 0x80000003\<rparr>) \<noteq> 0x8000000b"
    by simp_all
  note code2 = handle_trap_halts [OF a b, of mem0]
  note unknown = handle_trap_halts [OF c d, of mem0]
  from code2 have never: "handle_trap (hart0\<lparr>mcause := 2\<rparr>) mem0 = None"
    by (rule conjunct1)
  from code2 have "\<forall>n. (trap_step ^^ Suc n) (At_entry, hart0\<lparr>mcause := 2\<rparr>, mem0)
       = (In_while_1, hart0\<lparr>mcause := 2\<rparr>, mem0)"
    by (elim conjE)
  then have "(trap_step ^^ Suc 2) (At_entry, hart0\<lparr>mcause := 2\<rparr>, mem0)
       = (In_while_1, hart0\<lparr>mcause := 2\<rparr>, mem0)"
    by (rule spec)
  then have three: "(trap_step ^^ 3) (At_entry, hart0\<lparr>mcause := 2\<rparr>, mem0)
       = (In_while_1, hart0\<lparr>mcause := 2\<rparr>, mem0)"
    by (simp only: eval_nat_numeral)
  from unknown have other: "handle_trap (hart0\<lparr>mcause := 0x80000003\<rparr>) mem0 = None"
    by (rule conjunct1)
  from a b never three other show ?thesis
    by (intro conjI)
qed

section \<open>Two timer interrupts in a row\<close>

lemma timer_registers_apart:
  "IO_MTIMECMP \<noteq> IO_MTIME" "IO_MTIMECMP \<noteq> IO_MTIME + 4" "IO_MTIMECMP + 4 \<noteq> IO_MTIME"
  by (simp_all add: IO_MTIMECMP_def IO_MTIME_def IO_BASE_def)

text \<open>
  C6. Two timer dispatches in a row, the counter reading \<open>t1\<close> at the first and \<open>t2\<close> at
  the second (the hardware may have raised any pending bits \<open>p\<close> in between): the first
  leaves \<open>t1 + 1000\<close> in the timer compare register, the second leaves \<open>t2 + 1000\<close>. The
  second value is relative to \<open>t2\<close>: it differs from the first value plus 1000 whenever
  \<open>t2\<close> is not \<open>t1 + 1000\<close>.
\<close>

theorem handle_trap_timer_twice:
  assumes "mcause h = 0x80000007"
  shows "\<exists>h1 m1 h2 m2.
           handle_trap h (store64 m IO_MTIME t1) = Some (h1, m1)
         \<and> load64 m1 IO_MTIMECMP = t1 + 1000
         \<and> handle_trap (h1\<lparr>mip := p\<rparr>) (store64 m1 IO_MTIME t2) = Some (h2, m2)
         \<and> load64 m2 IO_MTIMECMP = t2 + 1000
         \<and> (t2 \<noteq> t1 + 1000 \<longrightarrow> load64 m2 IO_MTIMECMP \<noteq> load64 m1 IO_MTIMECMP + 1000)"
proof -
  let ?mA = "store64 m IO_MTIME t1"
  let ?h1 = "csrc_mip (push_bit 7 1) h"
  let ?m1 = "store64 ?mA IO_MTIMECMP (load64 ?mA IO_MTIME + 1000)"
  let ?hB = "?h1\<lparr>mip := p\<rparr>"
  let ?mB = "store64 ?m1 IO_MTIME t2"
  let ?h2 = "csrc_mip (push_bit 7 1) ?hB"
  let ?m2 = "store64 ?mB IO_MTIMECMP (load64 ?mB IO_MTIME + 1000)"
  have first: "handle_trap h ?mA = Some (?h1, ?m1)"
    using assms by (simp add: handle_trap_cases csrr_mcause_def Let_def del: push_bit_of_1)
  have cause: "mcause ?hB = 0x80000007"
    using assms by (simp add: csrc_mip_def)
  have second: "handle_trap ?hB ?mB = Some (?h2, ?m2)"
    using cause by (simp add: handle_trap_cases csrr_mcause_def Let_def del: push_bit_of_1)
  have cmp1: "load64 ?m1 IO_MTIMECMP = t1 + 1000"
    by (simp add: load64_store64_same)
  have cmp2: "load64 ?m2 IO_MTIMECMP = t2 + 1000"
    by (simp add: load64_store64_same)
  have rel: "t2 \<noteq> t1 + 1000 \<longrightarrow> load64 ?m2 IO_MTIMECMP \<noteq> load64 ?m1 IO_MTIMECMP + 1000"
    unfolding cmp1 cmp2 by (simp add: add.commute)
  from first second cmp1 cmp2 rel show ?thesis by blast
qed

theorem handle_trap_timer_twice_witness:
  "mcause (hart0\<lparr>mcause := 0x80000007\<rparr>) = 0x80000007
   \<and> (\<exists>h1 m1 h2 m2.
         handle_trap (hart0\<lparr>mcause := 0x80000007\<rparr>) (store64 mem0 IO_MTIME 5000) = Some (h1, m1)
       \<and> load64 m1 IO_MTIMECMP = 6000
       \<and> handle_trap (h1\<lparr>mip := 0x80\<rparr>) (store64 m1 IO_MTIME 7500) = Some (h2, m2)
       \<and> load64 m2 IO_MTIMECMP = 8500)"
proof -
  have c: "mcause (hart0\<lparr>mcause := 0x80000007\<rparr>) = 0x80000007"
    by simp
  from handle_trap_timer_twice [OF c, of mem0 5000 "0x80" 7500] c
  show ?thesis by auto
qed

section \<open>Acquiring the lock alone\<close>

text \<open>
  C2. Called alone with the lock word 0, \<^verbatim>\<open>atomic_lr_sc\<close> returns, but what it leaves in
  the lock word is the content of \<^verbatim>\<open>a2\<close> at the call, which no instruction of the
  routine sets: with \<^verbatim>\<open>a2\<close> = 0 the lock word is 0 afterwards, as if nobody held the
  lock, and with \<^verbatim>\<open>a2\<close> = 5 or 7 it is 5 or 7. The value is no fixed constant and need
  not be non-zero.
\<close>

theorem atomic_lr_sc_stores_a2_not_sentinel:
  "atomic_lr_sc hart0 mem0 \<noteq> None
   \<and> map_option (\<lambda>s. snd s 0xc0100000) (atomic_lr_sc hart0 mem0) = Some 0
   \<and> map_option (\<lambda>s. snd s 0xc0100000)
        (atomic_lr_sc (hart0\<lparr>regs := (regs hart0)(A2 := 5)\<rparr>) mem0) = Some 5
   \<and> map_option (\<lambda>s. snd s 0xc0100000)
        (atomic_lr_sc (hart0\<lparr>regs := (regs hart0)(A2 := 7)\<rparr>) mem0) = Some 7"
proof -
  have free: "mem0 0xc0100000 = 0"
    by (simp add: mem0_def)
  show ?thesis
    by (simp add: atomic_lr_sc_free [of mem0, OF free] hart0_def)
qed

section \<open>The retry loop\<close>



section \<open>The value that the conditional store writes\<close>

text \<open>
  C10. No instruction of \<^verbatim>\<open>atomic_lr_sc\<close> has \<^verbatim>\<open>a2\<close> as its destination, so whatever
  the hart executes and whatever others store in between, \<^verbatim>\<open>a2\<close> holds what it held
  at the call. Whenever the \<^verbatim>\<open>sc.w\<close> succeeds it is at address \<open>0xc0100000\<close> and the
  value it writes is that entry value of \<^verbatim>\<open>a2\<close>. Called alone with the lock word 0,
  the routine returns with the entry value of \<^verbatim>\<open>a2\<close> in the lock word, which is 0 when
  \<^verbatim>\<open>a2\<close> was 0.
\<close>

theorem a2_never_loaded:
  "(\<forall>i \<in> set atomic_lr_sc_code. dest i \<noteq> Some A2)
   \<and> regs (hart_of (contended_run es (again, h, m))) A2 = regs h A2
   \<and> (sc_address (contended_run es (again, h, m)) \<noteq> None \<longrightarrow>
        sc_address (contended_run es (again, h, m)) = Some 0xc0100000
        \<and> mem_of (step (contended_run es (again, h, m))) 0xc0100000 = regs h A2)
   \<and> (m 0xc0100000 = 0 \<longrightarrow>
        (\<exists>h'. atomic_lr_sc h m = Some (h', m(0xc0100000 := regs h A2))))
   \<and> (m 0xc0100000 = 0 \<and> regs h A2 = 0 \<longrightarrow>
        (\<exists>h' m'. atomic_lr_sc h m = Some (h', m') \<and> m' 0xc0100000 = 0))"
proof -
  let ?c = "contended_run es (again, h, m)"
  have no_dest: "\<forall>i \<in> set atomic_lr_sc_code. dest i \<noteq> Some A2"
    by (simp add: atomic_lr_sc_code_def)
  have kept: "regs (hart_of ?c) A2 = regs h A2"
    by (simp add: contended_run_a2) (simp add: hart_of_def)
  have written: "sc_address ?c = Some 0xc0100000 \<and> mem_of (step ?c) 0xc0100000 = regs h A2"
    if "sc_address ?c \<noteq> None"
  proof -
    from that obtain a where a: "sc_address ?c = Some a" by auto
    then have pc: "pc_of ?c = 4" and r: "resv (hart_of ?c) = Some a"
      and a0: "regs (hart_of ?c) A0 = a"
      by (simp_all add: sc_address_Some)
    have "a0_loaded ?c"
      by (rule contended_run_a0) (rule a0_loaded_again)
    with pc a0 have lock: "a = 0xc0100000"
      by (simp add: a0_loaded_def)
    obtain pc' h' m' where c: "?c = (pc', h', m')" by (cases ?c)
    from pc r a0 c have "mem_of (step ?c) a = regs h' A2"
      by (simp add: pc_of_def hart_of_def mem_of_def step_simps)
    with kept c lock a show ?thesis
      by (simp add: hart_of_def)
  qed
  have alone: "\<exists>h'. atomic_lr_sc h m = Some (h', m(0xc0100000 := regs h A2))"
    if "m 0xc0100000 = 0"
    using that by (simp add: atomic_lr_sc_free)
  have zero: "\<exists>h' m'. atomic_lr_sc h m = Some (h', m') \<and> m' 0xc0100000 = 0"
    if "m 0xc0100000 = 0 \<and> regs h A2 = 0"
    using that by (simp add: atomic_lr_sc_free)
  from no_dest kept written alone zero show ?thesis
    by blast
qed

theorem a2_never_loaded_witness:
  "mem0 0xc0100000 = 0 \<and> regs hart0 A2 = 0
   \<and> sc_address (contended_run [Own, Own, Own, Own] (again, hart0, mem0)) \<noteq> None
   \<and> mem_of (step (contended_run [Own, Own, Own, Own] (again, hart0, mem0))) 0xc0100000 = 0
   \<and> (\<exists>h' m'. atomic_lr_sc hart0 mem0 = Some (h', m') \<and> m' 0xc0100000 = 0)"
proof -
  have a: "mem0 0xc0100000 = 0" and b: "regs hart0 A2 = 0"
    by (simp_all add: mem0_def hart0_def)
  have c: "sc_address (contended_run [Own, Own, Own, Own] (again, hart0, mem0)) \<noteq> None"
    by (simp add: contended_run_def again_def step_simps sc_address_Some pc_of_def hart_of_def
        mem0_def hart0_def)
  from a2_never_loaded [of "[Own, Own, Own, Own]" hart0 mem0] a b c
  show ?thesis by simp
qed

section \<open>Two contenders\<close>

text \<open>
  C8. Two contenders on a lock word that is 0, both having entered with \<^verbatim>\<open>a2\<close> = 0.
  In the first round both load 0, the first contender's \<^verbatim>\<open>sc.w\<close> succeeds and the
  second's fails, so the second goes back to \<^verbatim>\<open>again\<close> with the failure code in
  \<^verbatim>\<open>a3\<close>. But the value stored was the first contender's \<^verbatim>\<open>a2\<close>, which is 0: the
  second contender's retry finds the lock word 0 and its \<^verbatim>\<open>sc.w\<close> succeeds as well.
  At the end both contenders have acquired the lock and the lock word is 0.
\<close>

theorem two_contenders_both_acquire:
  "regs (snd (fst (snd (duo_run round_schedule duo0)))) A3 = 1
   \<and> fst (fst (snd (duo_run round_schedule duo0))) = again
   \<and> acquired (fst (duo_run retry_schedule duo0))
   \<and> acquired (fst (snd (duo_run retry_schedule duo0)))
   \<and> snd (snd (duo_run retry_schedule duo0)) 0xc0100000 = 0"
  by (simp add: duo_run_def retry_schedule_def round_schedule_def duo0_def acquired_def again_def
      step_simps step_returned sc_address_simps lose_resv_def hart0_def mem0_def
      atomic_lr_sc_code_def)

section \<open>Who writes the interrupt registers\<close>

text \<open>
  The first statement of \<^verbatim>\<open>main\<close> writes the timer compare register: run from a store
  of zeros, \<^verbatim>\<open>main\<close> returns 0 and the register has gone from 0 to 100.
\<close>

theorem main_arms_timer:
  "main printf_quiet hart0 mem0
     = Some (0, hart0\<lparr>regs := (regs hart0)(A0 := 0xc0100000, A1 := 0, A3 := 0), resv := None\<rparr>,
             (store64 mem0 IO_MTIMECMP 100)(0xc0100000 := 0))
   \<and> load64 mem0 IO_MTIMECMP = 0
   \<and> load64 ((store64 mem0 IO_MTIMECMP 100)(0xc0100000 := 0)) IO_MTIMECMP = 100"
proof -
  have t: "load64 mem0 IO_MTIME = 0" and c: "load64 mem0 IO_MTIMECMP = 0"
    by (simp_all add: load64_def mem0_def word_cat_eq)
  have free: "store64 mem0 IO_MTIMECMP 100 0xc0100000 = 0"
    using lock_word_apart by (simp add: store64_def mem0_def)
  have run: "main printf_quiet hart0 mem0
     = Some (0, hart0\<lparr>regs := (regs hart0)(A0 := 0xc0100000, A1 := 0, A3 := 0), resv := None\<rparr>,
             (store64 mem0 IO_MTIMECMP 100)(0xc0100000 := 0))"
    by (simp add: main_def printf_quiet_def t atomic_lr_sc_free [where m = "store64 mem0 IO_MTIMECMP 100", OF free]) (simp add: hart0_def)
  have after: "load64 ((store64 mem0 IO_MTIMECMP 100)(0xc0100000 := 0)) IO_MTIMECMP = 100"
    using lock_word_apart by (simp add: load64_upd_other load64_store64_same)
  from run c after show ?thesis by simp
qed

text \<open>
  C3, as amended. \<^verbatim>\<open>mip\<close> is written only by \<^verbatim>\<open>handle_trap\<close>; the timer compare
  register is written by \<^verbatim>\<open>handle_trap\<close> and by the first statement of \<^verbatim>\<open>main\<close>.
  \<^item> \<^verbatim>\<open>atomic_lr_sc\<close> changes neither, after any number of its instructions and at
    its return.
  \<^item> \<^verbatim>\<open>main\<close> does not change \<^verbatim>\<open>mip\<close> but does write the timer compare register:
    provided \<^verbatim>\<open>printf\<close> leaves both alone, at the return of \<^verbatim>\<open>main\<close> the register
    holds the counter that \<^verbatim>\<open>main\<close> read plus 100.
  \<^item> \<^verbatim>\<open>handle_trap\<close> clears bit 7 of \<^verbatim>\<open>mip\<close> and writes the timer compare register
    on a timer interrupt, and clears bit 11 of \<^verbatim>\<open>mip\<close> on an external interrupt.
\<close>

theorem timer_and_pending_writers:
  "(mip (hart_of ((step ^^ n) (again, h, m))) = mip h
      \<and> load64 (mem_of ((step ^^ n) (again, h, m))) IO_MTIMECMP = load64 m IO_MTIMECMP)
   \<and> (atomic_lr_sc h m = Some (ha, ma) \<longrightarrow>
        mip ha = mip h \<and> load64 ma IO_MTIMECMP = load64 m IO_MTIMECMP)
   \<and> ((\<forall>s. mip (fst (printf greeting s)) = mip (fst s)
            \<and> load64 (snd (printf greeting s)) IO_MTIMECMP = load64 (snd s) IO_MTIMECMP)
        \<and> main printf h m = Some (r, hb, mb) \<longrightarrow>
        mip hb = mip h \<and> load64 mb IO_MTIMECMP = load64 m IO_MTIME + 100)
   \<and> (mcause h = 0x80000007 \<longrightarrow>
        (\<exists>hc mc. handle_trap h m = Some (hc, mc)
           \<and> mip hc = mip h AND NOT (push_bit 7 1)
           \<and> load64 mc IO_MTIMECMP = load64 m IO_MTIME + 1000))
   \<and> (mcause h = 0x8000000b \<longrightarrow>
        (\<exists>hc. handle_trap h m = Some (hc, m) \<and> mip hc = mip h AND NOT (push_bit 11 1)))"
proof -
  have timer: "\<exists>hc mc. handle_trap h m = Some (hc, mc)
           \<and> mip hc = mip h AND NOT (push_bit 7 1)
           \<and> load64 mc IO_MTIMECMP = load64 m IO_MTIME + 1000"
    if "mcause h = 0x80000007"
    using that
    by (simp add: handle_trap_cases csrr_mcause_def csrc_mip_def Let_def load64_store64_same
        del: push_bit_of_1)
  have external: "\<exists>hc. handle_trap h m = Some (hc, m) \<and> mip hc = mip h AND NOT (push_bit 11 1)"
    if "mcause h = 0x8000000b"
    using that
    by (simp add: handle_trap_cases csrr_mcause_def csrc_mip_def Let_def del: push_bit_of_1)
  have frame: "a0_loaded ((step ^^ n) (again, h, m))
         \<and> mip (hart_of ((step ^^ n) (again, h, m))) = mip (hart_of (again, h, m))
         \<and> (\<forall>a. a \<noteq> 0xc0100000 \<longrightarrow> mem_of ((step ^^ n) (again, h, m)) a = mem_of (again, h, m) a)"
    by (rule steps_frame) (rule a0_loaded_again)
  then have steps_mip: "mip (hart_of ((step ^^ n) (again, h, m))) = mip h"
    by (simp add: hart_of_def)
  from frame have "mem_of ((step ^^ n) (again, h, m)) IO_MTIMECMP = m IO_MTIMECMP"
    and "mem_of ((step ^^ n) (again, h, m)) (IO_MTIMECMP + 4) = m (IO_MTIMECMP + 4)"
    using lock_word_apart by (simp_all add: mem_of_def)
  then have steps_cmp: "load64 (mem_of ((step ^^ n) (again, h, m))) IO_MTIMECMP = load64 m IO_MTIMECMP"
    by (rule load64_cong)
  have call: "mip ha = mip h \<and> load64 ma IO_MTIMECMP = load64 m IO_MTIMECMP"
    if "atomic_lr_sc h m = Some (ha, ma)" for h m ha ma
    using atomic_lr_sc_Some [OF that] lock_word_apart by (simp add: load64_upd_other)
  have prog: "mip hb = mip h \<and> load64 mb IO_MTIMECMP = load64 m IO_MTIME + 100"
    if pf: "\<forall>s. mip (fst (printf greeting s)) = mip (fst s)
            \<and> load64 (snd (printf greeting s)) IO_MTIMECMP = load64 (snd s) IO_MTIMECMP"
      and ret: "main printf h m = Some (r, hb, mb)"
  proof -
    let ?m1 = "store64 m IO_MTIMECMP (load64 m IO_MTIME + 100)"
    obtain h2 m2 where p: "printf greeting (h, ?m1) = (h2, m2)"
      by (cases "printf greeting (h, ?m1)")
    from ret p have acq: "atomic_lr_sc h2 m2 = Some (hb, mb)"
      by (auto simp: main_def Let_def split: option.splits)
    from pf [rule_format, of "(h, ?m1)"] p
    have "mip h2 = mip h" and "load64 m2 IO_MTIMECMP = load64 ?m1 IO_MTIMECMP"
      by simp_all
    with call [OF acq] show ?thesis
      by (simp add: load64_store64_same)
  qed
  from steps_mip steps_cmp call prog timer external show ?thesis
    by blast
qed

theorem timer_and_pending_writers_witness:
  "(\<forall>s. mip (fst (printf_quiet greeting s)) = mip (fst s)
        \<and> load64 (snd (printf_quiet greeting s)) IO_MTIMECMP = load64 (snd s) IO_MTIMECMP)
   \<and> main printf_quiet hart0 mem0
       = Some (0, hart0\<lparr>regs := (regs hart0)(A0 := 0xc0100000, A1 := 0, A3 := 0), resv := None\<rparr>,
               (store64 mem0 IO_MTIMECMP 100)(0xc0100000 := 0))
   \<and> mip (hart0\<lparr>regs := (regs hart0)(A0 := 0xc0100000, A1 := 0, A3 := 0), resv := None\<rparr>)
       = mip hart0
   \<and> load64 ((store64 mem0 IO_MTIMECMP 100)(0xc0100000 := 0)) IO_MTIMECMP
       = load64 mem0 IO_MTIME + 100"
proof -
  have pf: "\<forall>s. mip (fst (printf_quiet greeting s)) = mip (fst s)
        \<and> load64 (snd (printf_quiet greeting s)) IO_MTIMECMP = load64 (snd s) IO_MTIMECMP"
    by (simp add: printf_quiet_def)
  have free: "store64 mem0 IO_MTIMECMP 100 0xc0100000 = 0"
    using lock_word_apart by (simp add: store64_def mem0_def)
  have t: "load64 mem0 IO_MTIME = 0"
    by (simp add: load64_def mem0_def word_cat_eq)
  have run: "main printf_quiet hart0 mem0
     = Some (0, hart0\<lparr>regs := (regs hart0)(A0 := 0xc0100000, A1 := 0, A3 := 0), resv := None\<rparr>,
             (store64 mem0 IO_MTIMECMP 100)(0xc0100000 := 0))"
    by (simp add: main_def printf_quiet_def t atomic_lr_sc_free [where m = "store64 mem0 IO_MTIMECMP 100", OF free]) (simp add: hart0_def)
  from timer_and_pending_writers [where printf = printf_quiet and h = hart0 and m = mem0
      and r = 0 and n = 0
      and hb = "hart0\<lparr>regs := (regs hart0)(A0 := 0xc0100000, A1 := 0, A3 := 0), resv := None\<rparr>"
      and mb = "(store64 mem0 IO_MTIMECMP 100)(0xc0100000 := 0)"] pf run
  show ?thesis by simp
qed

section \<open>The variable lock_var\<close>

text \<open>
  C9. Let \<^verbatim>\<open>lock_var\<close> be linked at an address that is none of the five words that the
  program addresses by number (the lock word \<open>0xc0100000\<close> and the two halves of each
  timer register). Then \<^verbatim>\<open>handle_trap\<close> and \<^verbatim>\<open>atomic_lr_sc\<close> do not read it: giving
  it another value before the call changes nothing but that value after the call. And
  nothing writes it: \<^verbatim>\<open>handle_trap\<close>, every instruction of \<^verbatim>\<open>atomic_lr_sc\<close>, the whole
  call, and \<^verbatim>\<open>main\<close> (with a \<^verbatim>\<open>printf\<close> that does not write it) leave it as it was,
  so it stays 0 when it was 0. The reservation of the \<^verbatim>\<open>lr.w\<close> and the store of a
  succeeding \<^verbatim>\<open>sc.w\<close> are at \<open>0xc0100000\<close>.
\<close>

theorem lock_var_untouched:
  assumes "lv \<notin> {0xc0100000, IO_MTIME, IO_MTIME + 4, IO_MTIMECMP, IO_MTIMECMP + 4}"
  shows "handle_trap h (m(lv := v)) = map_option (\<lambda>(h', m'). (h', m'(lv := v))) (handle_trap h m)
   \<and> atomic_lr_sc h (m(lv := v)) = map_option (\<lambda>(h', m'). (h', m'(lv := v))) (atomic_lr_sc h m)
   \<and> (handle_trap h m = Some (ha, ma) \<longrightarrow> lock_var lv ma = lock_var lv m)
   \<and> lock_var lv (mem_of ((step ^^ n) (again, h, m))) = lock_var lv m
   \<and> (atomic_lr_sc h m = Some (hb, mb) \<longrightarrow> lock_var lv mb = lock_var lv m)
   \<and> ((\<forall>s. lock_var lv (snd (printf greeting s)) = lock_var lv (snd s))
        \<and> main printf h m = Some (r, hc, mc) \<longrightarrow> lock_var lv mc = lock_var lv m)
   \<and> resv (hart_of ((step ^^ 3) (again, h, m))) = Some 0xc0100000
   \<and> (sc_address ((step ^^ n) (again, h, m)) \<noteq> None \<longrightarrow>
        sc_address ((step ^^ n) (again, h, m)) = Some 0xc0100000)"
proof -
  from assms have lock: "lv \<noteq> 0xc0100000"
    and time: "lv \<noteq> IO_MTIME" "lv \<noteq> IO_MTIME + 4"
    and cmp: "lv \<noteq> IO_MTIMECMP" "lv \<noteq> IO_MTIMECMP + 4"
    by simp_all
  have trap_indep: "handle_trap h (m(lv := v))
      = map_option (\<lambda>(h', m'). (h', m'(lv := v))) (handle_trap h m)"
    using time cmp by (rule handle_trap_upd)
  have lock_indep: "atomic_lr_sc h (m(lv := v))
      = map_option (\<lambda>(h', m'). (h', m'(lv := v))) (atomic_lr_sc h m)"
    using lock by (rule atomic_lr_sc_upd)
  have trap_kept: "lock_var lv ma = lock_var lv m" if "handle_trap h m = Some (ha, ma)"
    unfolding lock_var_def using that cmp by (rule handle_trap_mem_other)
  have frame: "a0_loaded ((step ^^ n) (again, h, m))
         \<and> mip (hart_of ((step ^^ n) (again, h, m))) = mip (hart_of (again, h, m))
         \<and> (\<forall>a. a \<noteq> 0xc0100000 \<longrightarrow> mem_of ((step ^^ n) (again, h, m)) a = mem_of (again, h, m) a)"
    by (rule steps_frame) (rule a0_loaded_again)
  with lock have steps_kept: "lock_var lv (mem_of ((step ^^ n) (again, h, m))) = lock_var lv m"
    by (simp add: lock_var_def mem_of_def)
  have call_kept: "lock_var lv mb = lock_var lv m" if "atomic_lr_sc h m = Some (hb, mb)" for h m hb mb
    using atomic_lr_sc_Some [OF that] lock by (simp add: lock_var_def)
  have main_kept: "lock_var lv mc = lock_var lv m"
    if pf: "\<forall>s. lock_var lv (snd (printf greeting s)) = lock_var lv (snd s)"
      and ret: "main printf h m = Some (r, hc, mc)"
  proof -
    let ?m1 = "store64 m IO_MTIMECMP (load64 m IO_MTIME + 100)"
    obtain h2 m2 where p: "printf greeting (h, ?m1) = (h2, m2)"
      by (cases "printf greeting (h, ?m1)")
    from ret p have acq: "atomic_lr_sc h2 m2 = Some (hc, mc)"
      by (auto simp: main_def Let_def split: option.splits)
    from pf [rule_format, of "(h, ?m1)"] p have "lock_var lv m2 = lock_var lv ?m1"
      by simp
    also have "\<dots> = lock_var lv m"
      using cmp by (simp add: lock_var_def store64_other)
    finally show ?thesis
      using call_kept [OF acq] by simp
  qed
  have lr: "resv (hart_of ((step ^^ 3) (again, h, m))) = Some 0xc0100000"
    unfolding funpow_unfold by (simp add: again_def step_simps hart_of_def)
  have sc: "sc_address ((step ^^ n) (again, h, m)) = Some 0xc0100000"
    if "sc_address ((step ^^ n) (again, h, m)) \<noteq> None"
  proof -
    from that obtain a where a: "sc_address ((step ^^ n) (again, h, m)) = Some a" by auto
    then have "pc_of ((step ^^ n) (again, h, m)) = 4"
      and "regs (hart_of ((step ^^ n) (again, h, m))) A0 = a"
      by (simp_all add: sc_address_Some)
    with frame have "a = 0xc0100000" by (simp add: a0_loaded_def)
    with a show ?thesis by simp
  qed
  from trap_indep lock_indep trap_kept steps_kept call_kept main_kept lr sc show ?thesis
    by blast
qed

theorem lock_var_untouched_witness:
  "(0x80000000 :: u32) \<notin> {0xc0100000, IO_MTIME, IO_MTIME + 4, IO_MTIMECMP, IO_MTIMECMP + 4}
   \<and> lock_var 0x80000000 mem0 = 0
   \<and> atomic_lr_sc hart0 mem0
       = Some (hart0\<lparr>regs := (regs hart0)(A0 := 0xc0100000, A1 := 0, A3 := 0), resv := None\<rparr>,
               mem0(0xc0100000 := 0))
   \<and> lock_var 0x80000000 (mem0(0xc0100000 := 0)) = 0
   \<and> sc_address ((step ^^ 4) (again, hart0, mem0)) = Some 0xc0100000"
proof -
  have lv: "(0x80000000 :: u32) \<notin> {0xc0100000, IO_MTIME, IO_MTIME + 4, IO_MTIMECMP, IO_MTIMECMP + 4}"
    by (simp add: IO_MTIME_def IO_MTIMECMP_def IO_BASE_def)
  have zero: "lock_var 0x80000000 mem0 = 0"
    by (simp add: lock_var_def mem0_def)
  have free: "mem0 0xc0100000 = 0"
    by (simp add: mem0_def)
  have call: "atomic_lr_sc hart0 mem0
       = Some (hart0\<lparr>regs := (regs hart0)(A0 := 0xc0100000, A1 := 0, A3 := 0), resv := None\<rparr>,
               mem0(0xc0100000 := 0))"
    by (simp add: atomic_lr_sc_free [where m = mem0, OF free]) (simp add: hart0_def)
  have sc: "sc_address ((step ^^ 4) (again, hart0, mem0)) \<noteq> None"
    unfolding funpow_unfold
    by (simp add: again_def step_simps sc_address_Some pc_of_def hart_of_def mem0_def hart0_def)
  note all = lock_var_untouched [OF lv, where h = hart0 and m = mem0 and n = 4
      and hb = "hart0\<lparr>regs := (regs hart0)(A0 := 0xc0100000, A1 := 0, A3 := 0), resv := None\<rparr>"
      and mb = "mem0(0xc0100000 := 0)"]
  from all [THEN conjunct2, THEN conjunct2, THEN conjunct2, THEN conjunct2, THEN conjunct1] call zero
  have kept: "lock_var 0x80000000 (mem0(0xc0100000 := 0)) = 0"
    by simp
  from all [THEN conjunct2, THEN conjunct2, THEN conjunct2, THEN conjunct2, THEN conjunct2,
      THEN conjunct2, THEN conjunct2] sc
  have at_lock: "sc_address ((step ^^ 4) (again, hart0, mem0)) = Some 0xc0100000"
    by (rule mp)
  from lv zero call kept at_lock show ?thesis
    by (intro conjI)
qed

end
